theory Spec2Isabelle
  imports Complex_Main "HOL-Library.Multiset"
begin

section \<open>Quiz Battle (script.js): data model\<close>

text \<open>
  Values that \<^verbatim>\<open>response.json()\<close> can produce. A JSON number is kept as an integer: the
  program only ever tests a fetched number for truthiness. An object is the list of its
  own properties.
\<close>

datatype json =
    JNull
  | JBool bool
  | JNum int
  | JStr string
  | JArr "json list"
  | JObj "(string \<times> json) list"

text \<open>
  A question object. \<^verbatim>\<open>difficulty\<close> is \<open>None\<close> when the property is \<^verbatim>\<open>undefined\<close>.
  Properties that the program never reads are not kept.
\<close>

record question =
  questionItem :: string
  options :: "json list"
  answer :: string
  difficulty :: "json option"

datatype error = TypeError | InvalidQuestion nat

text \<open>What one \<^verbatim>\<open>fetch(url)\<close> followed by \<^verbatim>\<open>response.json()\<close> can come to.\<close>

datatype response =
    NetworkError
  | NotOk
  | MalformedJson
  | Body json

text \<open>The fallback questions of lines 17-65.\<close>

definition builtinQuestions :: "question list" where
  "builtinQuestions =
    [ \<lparr> questionItem = ''Which organization manages hydropower projects in Bhutan?'',
        options = [JStr ''Druk Green Power Corporation'', JStr ''Bhutan Power Corporation'',
                   JStr ''Hydro Bhutan'', JStr ''Royal Energy Agency''],
        answer = ''Druk Green Power Corporation'',
        difficulty = Some (JStr ''easy'') \<rparr>,
      \<lparr> questionItem = ''Which Bhutanese festival involves mask dances and blessings?'',
        options = [JStr ''Tshechu'', JStr ''Losar'', JStr ''Thruebab'', JStr ''Neykor''],
        answer = ''Tshechu'',
        difficulty = Some (JStr ''easy'') \<rparr>,
      \<lparr> questionItem = ''Which Bhutanese king abdicated in favor of his son in 2006?'',
        options = [JStr ''Jigme Singye Wangchuck'', JStr ''Jigme Dorji Wangchuck'',
                   JStr ''Ugyen Wangchuck'', JStr ''Jigme Khesar Namgyel Wangchuck''],
        answer = ''Jigme Singye Wangchuck'',
        difficulty = Some (JStr ''easy'') \<rparr>,
      \<lparr> questionItem = ''Which Bhutanese policy restricts the number of tourists annually?'',
        options = [JStr ''High Value, Low Volume Tourism'', JStr ''Free Tourism'',
                   JStr ''Visa-Free Policy'', JStr ''Mass Tourism''],
        answer = ''High Value, Low Volume Tourism'',
        difficulty = Some (JStr ''hard'') \<rparr>,
      \<lparr> questionItem = ''Which year did Bhutan first hold democratic elections?'',
        options = [JStr ''2008'', JStr ''2005'', JStr ''2010'', JStr ''2013''],
        answer = ''2008'',
        difficulty = Some (JStr ''hard'') \<rparr> ]"

section \<open>Question loading and validation\<close>

text \<open>\<^verbatim>\<open>obj.name\<close> on a parsed value that is not \<^verbatim>\<open>null\<close>: \<open>None\<close> is \<^verbatim>\<open>undefined\<close>.\<close>

fun getProp :: "json \<Rightarrow> string \<Rightarrow> json option" where
  "getProp (JObj kvs) k = map_of kvs k"
| "getProp _ k = None"

fun typeofString :: "json option \<Rightarrow> bool" where
  "typeofString (Some (JStr s)) = True"
| "typeofString _ = False"

fun isArray :: "json option \<Rightarrow> bool" where
  "isArray (Some (JArr xs)) = True"
| "isArray _ = False"

text \<open>JavaScript truthiness of a property value.\<close>

fun truthy :: "json option \<Rightarrow> bool" where
  "truthy None = False"
| "truthy (Some JNull) = False"
| "truthy (Some (JBool b)) = b"
| "truthy (Some (JNum n)) = (n \<noteq> 0)"
| "truthy (Some (JStr s)) = (s \<noteq> [])"
| "truthy (Some (JArr xs)) = True"
| "truthy (Some (JObj kvs)) = True"

text \<open>
  The body of the \<^verbatim>\<open>forEach\<close> callback of \<^verbatim>\<open>validateQuestions\<close> (lines 154-160) at
  index \<open>i\<close>. Reading a property of \<^verbatim>\<open>null\<close> throws a TypeError; any other entry that
  fails the three tests throws the function's own Error.
\<close>

definition checkEntry :: "nat \<Rightarrow> json \<Rightarrow> error + unit" where
  "checkEntry i q =
     (if q = JNull then Inl TypeError
      else if \<not> typeofString (getProp q ''questionItem'') \<or> \<not> isArray (getProp q ''options'')
              \<or> \<not> typeofString (getProp q ''answer'')
      then Inl (InvalidQuestion i)
      else Inr ())"

text \<open>\<^verbatim>\<open>data.forEach\<close> from index \<open>i\<close> on: the first throw ends the iteration.\<close>

fun validateFrom :: "nat \<Rightarrow> json list \<Rightarrow> error + unit" where
  "validateFrom i [] = Inr ()"
| "validateFrom i (q # qs) =
     (case checkEntry i q of Inl e \<Rightarrow> Inl e | Inr u \<Rightarrow> validateFrom (Suc i) qs)"

definition validateQuestions :: "json list \<Rightarrow> error + unit" where
  "validateQuestions data = validateFrom 0 data"

text \<open>Reading a property that validation has shown to be a string, or an array.\<close>

fun stringOf :: "json option \<Rightarrow> string" where
  "stringOf (Some (JStr s)) = s"
| "stringOf _ = []"

fun arrayOf :: "json option \<Rightarrow> json list" where
  "arrayOf (Some (JArr xs)) = xs"
| "arrayOf _ = []"

text \<open>
  The callback of \<^verbatim>\<open>data.map\<close> (lines 128-131):
  \<^verbatim>\<open>{...questionItem, difficulty: questionItem.difficulty || undefined}\<close>.
\<close>

definition toQuestion :: "json \<Rightarrow> question" where
  "toQuestion q =
     \<lparr> questionItem = stringOf (getProp q ''questionItem''),
       options = arrayOf (getProp q ''options''),
       answer = stringOf (getProp q ''answer''),
       difficulty = (if truthy (getProp q ''difficulty'') then getProp q ''difficulty'' else None) \<rparr>"

text \<open>
  \<^verbatim>\<open>loadQuestions\<close> (lines 117-149). The argument list gives, for each URL of
  \<^verbatim>\<open>QUESTIONS_SOURCES\<close> in order, what fetching it comes to; the second argument is
  \<^verbatim>\<open>backupQuestions\<close> before the call and the result is \<^verbatim>\<open>backupQuestions\<close> after it.
  Every failure, thrown or not, goes on to the next URL.
\<close>

fun loadQuestions :: "response list \<Rightarrow> question list \<Rightarrow> question list" where
  "loadQuestions [] backup = backup"
| "loadQuestions (Body (JArr data) # rs) backup =
     (if data \<noteq> [] then
        (case validateQuestions data of
           Inl e \<Rightarrow> loadQuestions rs backup
         | Inr u \<Rightarrow> map toQuestion data)
      else loadQuestions rs backup)"
| "loadQuestions (r # rs) backup = loadQuestions rs backup"

section \<open>Session state\<close>

text \<open>
  A slot of the \<^verbatim>\<open>scores\<close> array: a number, \<^verbatim>\<open>NaN\<close>, or a hole left by writing past
  the end of the array.
\<close>

datatype slot = Num int | NaN | Hole

text \<open>An entry of \<^verbatim>\<open>answersLog\<close> (lines 337-346).\<close>

record logEntry =
  playerIndex :: nat
  playerName :: "string option"
  questionNumber :: nat
  question :: string
  shownOptions :: "json list"
  selectedAnswer :: json
  correctAnswer :: string
  isCorrect :: bool

text \<open>
  The global variables of lines 17-83, and what the program's handlers read of the page:
  the section that \<^verbatim>\<open>setSection\<close> made visible, the text of \<^verbatim>\<open>#setupMsg\<close>, and the
  intervals of the browser that are running (\<^verbatim>\<open>setInterval\<close> hands out positive
  identifiers, each one new).
\<close>

record session =
  backupQuestions :: "question list"
  playerNames :: "string list"
  scores :: "slot list"
  currentPlayer :: nat
  currentQuestion :: nat
  chosenDifficulty :: string
  playerIndexCounter :: nat
  answersLog :: "logEntry list"
  questionTimerId :: "nat option"
  questionTimeLeft :: int
  visibleSection :: string
  setupMsg :: string
  intervals :: "nat list"
  nextIntervalId :: nat

definition EASY_MODE_TIMER_SECONDS :: int where
  "EASY_MODE_TIMER_SECONDS = 10"

definition HARD_MODE_TIMER_SECONDS :: int where
  "HARD_MODE_TIMER_SECONDS = 15"

definition setSection :: "string \<Rightarrow> session \<Rightarrow> session" where
  "setSection name s = s\<lparr>visibleSection := name\<rparr>"

definition setMsg :: "string \<Rightarrow> session \<Rightarrow> session" where
  "setMsg txt s = s\<lparr>setupMsg := txt\<rparr>"

section \<open>Player management\<close>

text \<open>
  \<^verbatim>\<open>String.prototype.trim\<close> on the code units up to U+00FF, which is the alphabet of
  \<^typ>\<open>string\<close>: tab, line feed, vertical tab, form feed, carriage return, space and
  no-break space are removed from both ends.
\<close>

definition whiteSpace :: "char \<Rightarrow> bool" where
  "whiteSpace c \<longleftrightarrow> c \<in> set [CHR 0x09, CHR 0x0A, CHR 0x0B, CHR 0x0C, CHR 0x0D, CHR 0x20, CHR 0xA0]"

definition trim :: "string \<Rightarrow> string" where
  "trim v = rev (dropWhile whiteSpace (rev (dropWhile whiteSpace v)))"

text \<open>Decimal digits of a number, as a template literal prints it.\<close>

function showNat :: "nat \<Rightarrow> string" where
  "showNat n = (if n < 10 then [''0123456789'' ! n]
                else showNat (n div 10) @ [''0123456789'' ! (n mod 10)])"
  by pat_completeness auto
termination
  by (relation "measure id") auto

text \<open>
  \<^verbatim>\<open>addPlayerFromInput\<close> (lines 170-190); the argument is \<^verbatim>\<open>input.value\<close>. The list of
  players and the prompt that the function redraws are functions of the state.
\<close>

definition addPlayerFromInput :: "string \<Rightarrow> session \<Rightarrow> session" where
  "addPlayerFromInput v s =
     (let name = trim v in
      if name = [] then setMsg ''Please enter a name.'' s
      else
        let names = playerNames s @ [name];
            s1 = s\<lparr>playerNames := names,
                   scores := replicate (length names) (Num 0),
                   playerIndexCounter := length names + 1\<rparr>
        in setMsg (''Added '' @ [CHR 0x22] @ name @ [CHR 0x22] @ ''. Enter Player ''
                   @ showNat (playerIndexCounter s1) @ '' or continue.'') s1)"

text \<open>\<^verbatim>\<open>arr.splice(index, 1)\<close> for an index that is not negative.\<close>

definition splice1 :: "nat \<Rightarrow> 'a list \<Rightarrow> 'a list" where
  "splice1 i xs = take i xs @ drop (Suc i) xs"

text \<open>\<^verbatim>\<open>removePlayerAt\<close> (lines 196-205).\<close>

definition removePlayerAt :: "nat \<Rightarrow> session \<Rightarrow> session" where
  "removePlayerAt i s =
     (let names = splice1 i (playerNames s);
          s1 = s\<lparr>playerNames := names,
                 scores := replicate (length names) (Num 0),
                 playerIndexCounter := length names + 1\<rparr>
      in setMsg ''Player removed.'' s1)"

section \<open>Difficulty and question pool\<close>

text \<open>
  Numbers are IEEE 754 doubles, and line 278 multiplies two of them: the exact product is
  rounded to the nearest double, a tie going to the one with the even significand. A
  double is a rational number, so the rounding is a function on \<^typ>\<open>rat\<close>.

  \<open>rne\<close> rounds to the nearest integer, ties to even.
\<close>

definition rne :: "rat \<Rightarrow> int" where
  "rne q =
     (let f = \<lfloor>q\<rfloor>; d = q - of_int f
      in if d < 1 / 2 then f else if 1 / 2 < d then f + 1
         else if even f then f else f + 1)"

text \<open>
  A positive \<open>x\<close> is written \<open>m * w\<close> with \<open>w\<close> a power of two, of exponent \<open>e\<close>, and
  \<open>m\<close> in \<open>[1, 2)\<close>. The exponent of a double stays within \<open>-1022\<close> and \<open>1023\<close>: below
  that range the number is subnormal and \<open>m\<close> stays below 1.
\<close>

function scaleUp :: "rat \<Rightarrow> rat \<Rightarrow> int \<Rightarrow> rat \<times> rat" where
  "scaleUp m w e = (if 2 \<le> m \<and> e < 1023 then scaleUp (m / 2) (2 * w) (e + 1) else (m, w))"
  by pat_completeness auto
termination
  by (relation "measure (\<lambda>(m, w, e). nat (1023 - e))") auto

function scaleDown :: "rat \<Rightarrow> rat \<Rightarrow> int \<Rightarrow> rat \<times> rat" where
  "scaleDown m w e =
     (if m < 1 \<and> - 1022 < e then scaleDown (2 * m) (w / 2) (e - 1) else (m, w))"
  by pat_completeness auto
termination
  by (relation "measure (\<lambda>(m, w, e). nat (e + 1022))") auto

text \<open>
  The significand has 52 bits after the binary point: \<open>m * 2 ^ 52\<close> is rounded to an
  integer. This is the double nearest to \<open>x\<close> for every \<open>x\<close> below the overflow threshold
  \<open>2 ^ 1024\<close>, which the product of a number below 1 and an array index does not reach.
\<close>

definition roundPos :: "rat \<Rightarrow> rat" where
  "roundPos x =
     (case (if 1 \<le> x then scaleUp x 1 0 else scaleDown x 1 0) of
        (m, w) \<Rightarrow> of_int (rne (m * 2 ^ 52)) * w / 2 ^ 52)"

definition roundDouble :: "rat \<Rightarrow> rat" where
  "roundDouble x = (if x = 0 then 0 else if x < 0 then - roundPos (- x) else roundPos x)"

text \<open>The rationals that are doubles are those that rounding leaves as they are.\<close>

definition isDouble :: "rat \<Rightarrow> bool" where
  "isDouble x \<longleftrightarrow> roundDouble x = x"

text \<open>
  \<^verbatim>\<open>shuffleArray\<close> (lines 276-281). \<open>rnd i\<close> is what \<^verbatim>\<open>Math.random()\<close> returns in
  the iteration with index \<open>i\<close>, a double in \<open>[0, 1)\<close>. \<open>shuffleFrom i\<close> runs the
  iterations \<open>i, i - 1, \<dots>, 1\<close>. The number \<open>i + 1\<close> is at most the length of the
  array, which is below \<open>2 ^ 32\<close>, and so is a double itself; \<^verbatim>\<open>Math.floor\<close> is exact.
\<close>

fun shuffleFrom :: "nat \<Rightarrow> (nat \<Rightarrow> rat) \<Rightarrow> 'a list \<Rightarrow> 'a list" where
  "shuffleFrom 0 rnd arr = arr"
| "shuffleFrom (Suc i) rnd arr =
     (let j = nat \<lfloor>roundDouble (rnd (Suc i) * of_nat (Suc i + 1))\<rfloor>
      in shuffleFrom i rnd (arr[Suc i := arr ! j, j := arr ! Suc i]))"

definition shuffleArray :: "(nat \<Rightarrow> rat) \<Rightarrow> 'a list \<Rightarrow> 'a list" where
  "shuffleArray rnd arr = shuffleFrom (length arr - 1) rnd arr"

text \<open>The value of \<^verbatim>\<open>pool\<close> at line 264 of \<^verbatim>\<open>applyDifficultyFilter\<close>, before the shuffle.\<close>

definition difficultyPool :: "string \<Rightarrow> question list \<Rightarrow> question list" where
  "difficultyPool d qs =
     (let pool =
        (if d = ''easy'' then
           filter (\<lambda>q. \<not> truthy (difficulty q) \<or> difficulty q = Some (JStr ''easy'')) qs
         else
           let hardOnly = filter (\<lambda>q. difficulty q = Some (JStr ''hard'')) qs
           in if hardOnly \<noteq> [] then hardOnly else qs)
      in if pool = [] then qs else pool)"

text \<open>\<^verbatim>\<open>applyDifficultyFilter\<close> (lines 248-271).\<close>

definition applyDifficultyFilter :: "(nat \<Rightarrow> rat) \<Rightarrow> session \<Rightarrow> session" where
  "applyDifficultyFilter rnd s =
     s\<lparr>backupQuestions := shuffleArray rnd (difficultyPool (chosenDifficulty s) (backupQuestions s)),
       currentQuestion := 0,
       currentPlayer := 0,
       scores := replicate (length (playerNames s)) (Num 0)\<rparr>"

section \<open>Timer\<close>

text \<open>\<^verbatim>\<open>clearTimer\<close> (lines 468-473): an identifier 0 would be falsy.\<close>

definition clearTimer :: "session \<Rightarrow> session" where
  "clearTimer s =
     (case questionTimerId s of
        None \<Rightarrow> s
      | Some t \<Rightarrow>
          if t \<noteq> 0 then s\<lparr>intervals := removeAll t (intervals s), questionTimerId := None\<rparr>
          else s)"

text \<open>\<^verbatim>\<open>startTimer\<close> (lines 451-466) up to the call of \<^verbatim>\<open>setInterval\<close>.\<close>

definition startTimer :: "int \<Rightarrow> session \<Rightarrow> session" where
  "startTimer totalSeconds s =
     s\<lparr>questionTimeLeft := totalSeconds,
       questionTimerId := Some (nextIntervalId s),
       intervals := intervals s @ [nextIntervalId s],
       nextIntervalId := Suc (nextIntervalId s)\<rparr>"

section \<open>Quiz flow\<close>

text \<open>\<^verbatim>\<open>endGame\<close> (lines 377-382).\<close>

definition endGame :: "session \<Rightarrow> session" where
  "endGame s = setSection ''results'' (clearTimer s)"

text \<open>\<^verbatim>\<open>renderQuestion\<close> (lines 293-327).\<close>

definition renderQuestion :: "session \<Rightarrow> session" where
  "renderQuestion s =
     (if currentQuestion s \<ge> length (backupQuestions s) then endGame s
      else
        let secondsForThisQuestion =
              (if chosenDifficulty s = ''hard'' then HARD_MODE_TIMER_SECONDS
               else EASY_MODE_TIMER_SECONDS)
        in startTimer secondsForThisQuestion (clearTimer s))"

definition showQuiz :: "session \<Rightarrow> session" where
  "showQuiz s = renderQuestion (setSection ''quiz'' s)"

text \<open>\<^verbatim>\<open>nextTurn\<close> (lines 359-372).\<close>

definition nextTurn :: "session \<Rightarrow> session" where
  "nextTurn s =
     (let s1 = s\<lparr>currentPlayer := currentPlayer s + 1\<rparr>;
          s2 = (if currentPlayer s1 \<ge> length (playerNames s1)
                then s1\<lparr>currentPlayer := 0, currentQuestion := currentQuestion s1 + 1\<rparr>
                else s1)
      in if currentQuestion s2 \<ge> length (backupQuestions s2) then endGame s2
         else renderQuestion s2)"

text \<open>\<^verbatim>\<open>x++\<close> on a slot, and \<^verbatim>\<open>scores[i]++\<close>, which lengthens the array when \<open>i\<close> is past
  its end.\<close>

fun increment :: "slot \<Rightarrow> slot" where
  "increment (Num n) = Num (n + 1)"
| "increment NaN = NaN"
| "increment Hole = NaN"

definition incrementAt :: "nat \<Rightarrow> slot list \<Rightarrow> slot list" where
  "incrementAt i xs =
     (if i < length xs then xs[i := increment (xs ! i)]
      else xs @ replicate (i - length xs) Hole @ [NaN])"

text \<open>
  \<^verbatim>\<open>onAnswer\<close> (lines 332-353). With no question at \<^verbatim>\<open>currentQuestion\<close>, line 334 reads
  a property of \<^verbatim>\<open>undefined\<close> and throws before anything is written.
\<close>

definition onAnswer :: "json \<Rightarrow> session \<Rightarrow> error + session" where
  "onAnswer selected s =
     (if currentQuestion s \<ge> length (backupQuestions s) then Inl TypeError
      else
        let questionObject = backupQuestions s ! currentQuestion s;
            correct = answer questionObject;
            correctNow = (selected = JStr correct);
            s1 = s\<lparr>answersLog := answersLog s @
                   [\<lparr> playerIndex = currentPlayer s,
                      playerName = (if currentPlayer s < length (playerNames s)
                                    then Some (playerNames s ! currentPlayer s) else None),
                      questionNumber = currentQuestion s + 1,
                      question = questionItem questionObject,
                      shownOptions = options questionObject,
                      selectedAnswer = selected,
                      correctAnswer = correct,
                      isCorrect = correctNow \<rparr>]\<rparr>;
            s2 = (if correctNow then s1\<lparr>scores := incrementAt (currentPlayer s1) (scores s1)\<rparr>
                  else s1)
        in Inr (nextTurn s2))"

text \<open>The callback that \<^verbatim>\<open>startTimer\<close> gives to \<^verbatim>\<open>setInterval\<close> (lines 455-465).\<close>

definition timerTick :: "session \<Rightarrow> session" where
  "timerTick s =
     (let s1 = s\<lparr>questionTimeLeft := questionTimeLeft s - 1\<rparr>
      in if questionTimeLeft s1 \<le> 0 then nextTurn (clearTimer s1) else s1)"

section \<open>Events\<close>

text \<open>The click handler of \<^verbatim>\<open>#continueToDifficultyBtn\<close> (lines 500-506).\<close>

definition continueToDifficulty :: "session \<Rightarrow> session" where
  "continueToDifficulty s =
     (if length (playerNames s) < 1 then setMsg ''Add at least one player before continuing.'' s
      else setSection ''setup-difficulty'' s)"

text \<open>
  The state when the \<^verbatim>\<open>DOMContentLoaded\<close> handler (lines 477-528) has run: the variables
  as declared, \<^verbatim>\<open>backupQuestions\<close> as \<^verbatim>\<open>loadQuestions\<close> left it, the names section shown.
\<close>

definition initial :: "response list \<Rightarrow> session" where
  "initial rs =
     \<lparr> backupQuestions = loadQuestions rs builtinQuestions,
       playerNames = [],
       scores = [],
       currentPlayer = 0,
       currentQuestion = 0,
       chosenDifficulty = ''easy'',
       playerIndexCounter = 1,
       answersLog = [],
       questionTimerId = None,
       questionTimeLeft = 0,
       visibleSection = ''setup-names'',
       setupMsg = [],
       intervals = [],
       nextIntervalId = 1 \<rparr>"

text \<open>
  What the user and the browser can do to the page: the listeners wired in lines 491-527,
  the buttons made by \<^verbatim>\<open>renderPlayersList\<close> and \<^verbatim>\<open>renderQuestion\<close>, and a running
  interval calling back. \<open>StartGame\<close> carries the random numbers of its shuffle,
  \<open>PlayAgain\<close> what the reloaded page fetches.
\<close>

datatype event =
    AddPlayer string
  | RemovePlayer nat
  | ContinueToDifficulty
  | BackToNames
  | ChooseDifficulty string
  | StartGame "nat \<Rightarrow> rat"
  | Answer json
  | Tick
  | PlayAgain "response list"

fun handle :: "session \<Rightarrow> event \<Rightarrow> session" where
  "handle s (AddPlayer v) = addPlayerFromInput v s"
| "handle s (RemovePlayer i) = removePlayerAt i s"
| "handle s ContinueToDifficulty = continueToDifficulty s"
| "handle s BackToNames = setSection ''setup-names'' s"
| "handle s (ChooseDifficulty d) = s\<lparr>chosenDifficulty := d\<rparr>"
| "handle s (StartGame rnd) = showQuiz (applyDifficultyFilter rnd s)"
| "handle s (Answer a) = (case onAnswer a s of Inl e \<Rightarrow> s | Inr s' \<Rightarrow> s')"
| "handle s Tick = timerTick s"
| "handle s (PlayAgain rs) = initial rs"

text \<open>
  Modelled from the spec: the page (index.html) is not among the sources, so which control
  sits in which section is taken from the state machine of the specification, Setup,
  DifficultySelect, Playing, Results, each state being the section that \<^verbatim>\<open>setSection\<close>
  shows: names are added and removed and the continue button is pressed in Setup; the
  difficulty is chosen, the game started and the back button pressed in DifficultySelect;
  answers are given in Playing; play-again is pressed in Results. A control of a hidden
  section cannot be clicked. An interval calls back while it is running, whatever is shown.
\<close>

fun enabled :: "session \<Rightarrow> event \<Rightarrow> bool" where
  "enabled s (AddPlayer v) = (visibleSection s = ''setup-names'')"
| "enabled s (RemovePlayer i) = (visibleSection s = ''setup-names'')"
| "enabled s ContinueToDifficulty = (visibleSection s = ''setup-names'')"
| "enabled s BackToNames = (visibleSection s = ''setup-difficulty'')"
| "enabled s (ChooseDifficulty d) = (visibleSection s = ''setup-difficulty'')"
| "enabled s (StartGame rnd) = (visibleSection s = ''setup-difficulty'')"
| "enabled s (Answer a) = (visibleSection s = ''quiz'')"
| "enabled s Tick = (intervals s \<noteq> [])"
| "enabled s (PlayAgain rs) = (visibleSection s = ''results'')"

text \<open>An event that cannot occur in a state leaves it as it is.\<close>

definition fire :: "session \<Rightarrow> event \<Rightarrow> session" where
  "fire s e = (if enabled s e then handle s e else s)"

definition run :: "session \<Rightarrow> event list \<Rightarrow> session" where
  "run s es = foldl fire s es"

text \<open>
  The events in which \<^verbatim>\<open>nextTurn\<close> is called: an answer to a question that exists, and
  the tick that takes the countdown to zero.
\<close>

fun turnAdvancing :: "session \<Rightarrow> event \<Rightarrow> bool" where
  "turnAdvancing s (Answer a) =
     (enabled s (Answer a) \<and> currentQuestion s < length (backupQuestions s))"
| "turnAdvancing s Tick = (enabled s Tick \<and> questionTimeLeft s - 1 \<le> 0)"
| "turnAdvancing s e = False"

text \<open>How many events of a run advance the turn.\<close>

fun advances :: "session \<Rightarrow> event list \<Rightarrow> nat" where
  "advances s [] = 0"
| "advances s (e # es) = (if turnAdvancing s e then 1 else 0) + advances (fire s e) es"

text \<open>The events of a game under way: answers and ticks.\<close>

fun duringGame :: "event \<Rightarrow> bool" where
  "duringGame (Answer a) = True"
| "duringGame Tick = True"
| "duringGame e = False"

text \<open>
  The program's timer variable and the browser agree: the interval named by
  \<^verbatim>\<open>questionTimerId\<close> is the only one running, and identifiers are positive and below
  the next one to be handed out.
\<close>

definition timerInv :: "session \<Rightarrow> bool" where
  "timerInv s \<longleftrightarrow>
     intervals s = (case questionTimerId s of None \<Rightarrow> [] | Some t \<Rightarrow> [t]) \<and>
     list_all (\<lambda>t. 0 < t \<and> t < nextIntervalId s) (intervals s) \<and>
     0 < nextIntervalId s"

text \<open>Calls of the three functions that touch the timer, in any order.\<close>

datatype call = RenderQuestion | NextTurn | EndGame | TimerCallback

fun perform :: "session \<Rightarrow> call \<Rightarrow> session" where
  "perform s RenderQuestion = renderQuestion s"
| "perform s NextTurn = nextTurn s"
| "perform s EndGame = endGame s"
| "perform s TimerCallback = (if intervals s \<noteq> [] then timerTick s else s)"

section \<open>Vocabulary of the specification\<close>

text \<open>
  A fetched entry has a string prompt (the property \<^verbatim>\<open>questionItem\<close>), an array of
  options and a string answer.
\<close>

definition wellFormed :: "json \<Rightarrow> bool" where
  "wellFormed q \<longleftrightarrow>
     typeofString (getProp q ''questionItem'') \<and> isArray (getProp q ''options'') \<and>
     typeofString (getProp q ''answer'')"

text \<open>
  A question is tagged easy or hard by its \<^verbatim>\<open>difficulty\<close>; it is untagged when it has
  none, or a falsy one (which \<^verbatim>\<open>loadQuestions\<close> replaces by \<^verbatim>\<open>undefined\<close>).
\<close>

definition taggedEasy :: "question \<Rightarrow> bool" where
  "taggedEasy q \<longleftrightarrow> difficulty q = Some (JStr ''easy'')"

definition taggedHard :: "question \<Rightarrow> bool" where
  "taggedHard q \<longleftrightarrow> difficulty q = Some (JStr ''hard'')"

definition untagged :: "question \<Rightarrow> bool" where
  "untagged q \<longleftrightarrow> \<not> truthy (difficulty q)"

text \<open>The countdown that \<^verbatim>\<open>renderQuestion\<close> starts with (lines 321-324).\<close>

definition secondsFor :: "session \<Rightarrow> int" where
  "secondsFor s =
     (if chosenDifficulty s = ''hard'' then HARD_MODE_TIMER_SECONDS else EASY_MODE_TIMER_SECONDS)"

section \<open>Phases of a session\<close>

text \<open>How many turns have been taken in the game under way.\<close>

definition turnsTaken :: "session \<Rightarrow> nat" where
  "turnsTaken s = currentQuestion s * length (playerNames s) + currentPlayer s"

text \<open>
  Before the game: one of the two setup sections is shown, the difficulty section only with
  a player, both indices are 0 and no timer is set.
\<close>

definition setupPhase :: "session \<Rightarrow> bool" where
  "setupPhase s \<longleftrightarrow>
     (visibleSection s = ''setup-names'' \<or>
      visibleSection s = ''setup-difficulty'' \<and> playerNames s \<noteq> []) \<and>
     currentPlayer s = 0 \<and> currentQuestion s = 0 \<and> questionTimerId s = None"

text \<open>
  In the game and after it: there is a player, and either a question is shown, with both
  indices in range and the timer set, or the results are shown, with the question index
  past the last question and no timer.
\<close>

definition gamePhase :: "session \<Rightarrow> bool" where
  "gamePhase s \<longleftrightarrow>
     playerNames s \<noteq> [] \<and>
     (visibleSection s = ''quiz'' \<and> currentPlayer s < length (playerNames s) \<and>
        currentQuestion s < length (backupQuestions s) \<and> questionTimerId s \<noteq> None
      \<or> visibleSection s = ''results'' \<and> currentPlayer s = 0 \<and>
        currentQuestion s = length (backupQuestions s) \<and> questionTimerId s = None)"

definition sessionInv :: "session \<Rightarrow> bool" where
  "sessionInv s \<longleftrightarrow>
     timerInv s \<and> backupQuestions s \<noteq> [] \<and> length (scores s) = length (playerNames s) \<and>
     (setupPhase s \<or> gamePhase s)"

section \<open>Example sessions\<close>

text \<open>
  Two players, easy difficulty, every random number 0: the game starts with the question
  about the festival, whose answer is "Tshechu", and nine ticks leave one second.
\<close>

definition twoPlayersReady :: session where
  "twoPlayersReady =
     run (initial []) [AddPlayer ''Dorji'', AddPlayer ''Pema'', ContinueToDifficulty]"


section \<open>Question store\<close>

lemma checkEntry_ok: "checkEntry i q = Inr () \<longleftrightarrow> wellFormed q"
  by (cases q) (auto simp: checkEntry_def wellFormed_def)

lemma validateFrom_ok: "validateFrom i data = Inr () \<longleftrightarrow> (\<forall>q\<in>set data. wellFormed q)"
proof (induction data arbitrary: i)
  case Nil
  show ?case by simp
next
  case (Cons q qs)
  show ?case
  proof (cases "checkEntry i q")
    case (Inl e)
    then have "\<not> wellFormed q" using checkEntry_ok[of i q] by auto
    with Inl show ?thesis by simp
  next
    case (Inr u)
    then have "wellFormed q" using checkEntry_ok[of i q] by auto
    with Inr Cons.IH[of "Suc i"] show ?thesis by simp
  qed
qed

lemma validateQuestions_throws:
  "\<exists>q\<in>set data. \<not> wellFormed q \<Longrightarrow> \<exists>e. validateQuestions data = Inl e"
  using validateFrom_ok[of 0 data] unfolding validateQuestions_def
  by (cases "validateFrom 0 data") auto

lemma loadQuestions_nonempty: "backup \<noteq> [] \<Longrightarrow> loadQuestions rs backup \<noteq> []"
  by (induction rs backup rule: loadQuestions.induct) (auto split: sum.splits)

text \<open>
  Claim C4. When some entry of a fetched array lacks a string prompt, a string answer or
  an options array, \<^verbatim>\<open>loadQuestions\<close> takes nothing from that array: it goes on to the
  next source, and with the one configured source \<^verbatim>\<open>backupQuestions\<close> stays the
  built-in set.
\<close>

theorem loadQuestions_rejects_malformed:
  assumes "\<exists>q\<in>set data. \<not> wellFormed q"
  shows "loadQuestions (Body (JArr data) # rs) backup = loadQuestions rs backup
       \<and> loadQuestions [Body (JArr data)] backup = backup
       \<and> backupQuestions (initial [Body (JArr data)]) = builtinQuestions"
proof -
  obtain e where "validateQuestions data = Inl e"
    using validateQuestions_throws[OF assms] by blast
  then show ?thesis by (simp add: initial_def)
qed

theorem loadQuestions_rejects_malformed_witness:
  "loadQuestions
     [Body (JArr [JObj [(''questionItem'', JStr ''Q''), (''options'', JArr [JStr ''a'']),
                        (''answer'', JStr ''a'')],
                  JObj [(''questionItem'', JStr ''R''), (''answer'', JStr ''b'')]])]
     builtinQuestions = builtinQuestions"
proof -
  have "\<exists>q\<in>set [JObj [(''questionItem'', JStr ''Q''), (''options'', JArr [JStr ''a'']),
                        (''answer'', JStr ''a'')],
                  JObj [(''questionItem'', JStr ''R''), (''answer'', JStr ''b'')]].
          \<not> wellFormed q"
    by (simp add: wellFormed_def)
  from loadQuestions_rejects_malformed[OF this] show ?thesis by simp
qed

text \<open>
  Claim C10. A response that parses to the empty array is passed over like a failed one:
  \<^verbatim>\<open>backupQuestions\<close> is not replaced, and with the one configured source the built-in
  questions stay in use.
\<close>

theorem loadQuestions_empty_array:
  "loadQuestions (Body (JArr []) # rs) backup = loadQuestions rs backup
   \<and> loadQuestions [Body (JArr [])] backup = backup
   \<and> backupQuestions (initial [Body (JArr [])]) = builtinQuestions"
  by (simp add: initial_def)

section \<open>Players\<close>

text \<open>
  Claim C8. An input whose trimmed value is empty is refused with the message
  "Please enter a name." and nothing else of the state changes.
\<close>

theorem addPlayer_blank_rejected:
  assumes "trim v = []"
  shows "addPlayerFromInput v s = s\<lparr>setupMsg := ''Please enter a name.''\<rparr>"
  using assms by (simp add: addPlayerFromInput_def setMsg_def)

theorem addPlayer_blank_rejected_witness:
  "trim [CHR 0x20, CHR 0x09, CHR 0x20] = []
   \<and> addPlayerFromInput [CHR 0x20, CHR 0x09, CHR 0x20] (initial []) =
       (initial [])\<lparr>setupMsg := ''Please enter a name.''\<rparr>"
proof -
  have t: "trim [CHR 0x20, CHR 0x09, CHR 0x20] = []"
    by (simp add: trim_def whiteSpace_def)
  from addPlayer_blank_rejected[OF t] t show ?thesis by simp
qed

text \<open>
  Claim C9. After a player is added (the trimmed name not being empty) and after a player
  is removed, \<^verbatim>\<open>scores\<close> holds one zero for each player: whatever scores there were are
  gone.
\<close>

theorem add_remove_reset_scores:
  "(trim v \<noteq> [] \<longrightarrow>
      scores (addPlayerFromInput v s) =
        replicate (length (playerNames (addPlayerFromInput v s))) (Num 0))
   \<and> scores (removePlayerAt i s) = replicate (length (playerNames (removePlayerAt i s))) (Num 0)"
  by (simp add: addPlayerFromInput_def removePlayerAt_def setMsg_def Let_def)

theorem add_remove_reset_scores_witness:
  "scores (addPlayerFromInput ''Pema''
      ((initial [])\<lparr>playerNames := [''Dorji''], scores := [Num 3]\<rparr>)) = [Num 0, Num 0]
   \<and> scores (removePlayerAt 0
      ((initial [])\<lparr>playerNames := [''Dorji'', ''Pema''], scores := [Num 3, Num 1]\<rparr>)) = [Num 0]"
proof -
  have t: "trim ''Pema'' \<noteq> []"
    by (simp add: trim_def whiteSpace_def)
  have n: "playerNames (addPlayerFromInput ''Pema''
      ((initial [])\<lparr>playerNames := [''Dorji''], scores := [Num 3]\<rparr>)) = [''Dorji'', ''Pema'']"
    using t by (simp add: addPlayerFromInput_def setMsg_def Let_def) (simp add: trim_def whiteSpace_def)
  have m: "playerNames (removePlayerAt 0
      ((initial [])\<lparr>playerNames := [''Dorji'', ''Pema''], scores := [Num 3, Num 1]\<rparr>)) = [''Pema'']"
    by (simp add: removePlayerAt_def setMsg_def splice1_def)
  from add_remove_reset_scores[of "''Pema''"
      "(initial [])\<lparr>playerNames := [''Dorji''], scores := [Num 3]\<rparr>" 0]
    add_remove_reset_scores[of "''Pema''"
      "(initial [])\<lparr>playerNames := [''Dorji'', ''Pema''], scores := [Num 3, Num 1]\<rparr>" 0] t
  show ?thesis unfolding n m by (simp add: numeral_2_eq_2)
qed

section \<open>Difficulty filter and shuffle\<close>

text \<open>The equations of the two scaling loops are unfolded by hand only.\<close>

declare scaleUp.simps [simp del] scaleDown.simps [simp del]

lemma rne_le: "of_int (rne q) \<le> q + 1 / 2"
  unfolding rne_def Let_def by (auto; linarith)

lemma scaleUp_inv:
  "1 \<le> m \<Longrightarrow> 0 < w \<Longrightarrow> scaleUp m w e = (m', w') \<Longrightarrow> m' * w' = m * w \<and> 1 \<le> m' \<and> 0 < w'"
proof (induction m w e rule: scaleUp.induct)
  case (1 m w e)
  show ?case
  proof (cases "2 \<le> m \<and> e < 1023")
    case True
    with "1.prems" have "scaleUp (m / 2) (2 * w) (e + 1) = (m', w')"
      by (subst (asm) scaleUp.simps) simp
    from "1.IH"[OF True _ _ this] True "1.prems"(2) show ?thesis by simp
  next
    case False
    with "1.prems" show ?thesis by (subst (asm) scaleUp.simps) auto
  qed
qed

lemma scaleDown_inv:
  "0 < w \<Longrightarrow> scaleDown m w e = (m', w') \<Longrightarrow> m' * w' = m * w \<and> 0 < w' \<and> w' \<le> w"
proof (induction m w e rule: scaleDown.induct)
  case (1 m w e)
  show ?case
  proof (cases "m < 1 \<and> - 1022 < e")
    case True
    with "1.prems" have "scaleDown (2 * m) (w / 2) (e - 1) = (m', w')"
      by (subst (asm) scaleDown.simps) simp
    from "1.IH"[OF True _ this] "1.prems"(1) show ?thesis by simp
  next
    case False
    with "1.prems" show ?thesis by (subst (asm) scaleDown.simps) auto
  qed
qed

lemma roundPos_bound:
  assumes "0 < x"
  shows "roundPos x \<le> x * (1 + 1 / 2 ^ 53) \<or> roundPos x < 1"
proof (cases "1 \<le> x")
  case True
  obtain m w where s: "scaleUp x 1 0 = (m, w)" by (cases "scaleUp x 1 0")
  from scaleUp_inv[OF True _ s] have i: "m * w = x" "1 \<le> m" "0 < w" by simp_all
  have r: "roundPos x = of_int (rne (m * 2 ^ 52)) * w / 2 ^ 52"
    using True s by (simp add: roundPos_def)
  have "of_int (rne (m * 2 ^ 52)) * w \<le> (m * 2 ^ 52 + 1 / 2) * w"
    using rne_le[of "m * 2 ^ 52"] i(3) by (intro mult_right_mono) simp_all
  then have "roundPos x \<le> (m * 2 ^ 52 + 1 / 2) * w / 2 ^ 52"
    unfolding r by (simp add: divide_right_mono)
  also have "\<dots> = x + w / 2 ^ 53"
    using i(1) by (simp add: field_simps)
  also have "w \<le> x" using i by (metis mult_le_cancel_right1 not_less order_less_imp_le mult.commute)
  then have "x + w / 2 ^ 53 \<le> x * (1 + 1 / 2 ^ 53)"
    by (simp add: field_simps)
  finally show ?thesis by simp
next
  case False
  then have x1: "x < 1" by simp
  obtain m w where s: "scaleDown (2 * x) (1 / 2) (- 1) = (m, w)"
    by (cases "scaleDown (2 * x) (1 / 2) (- 1)")
  have s0: "scaleDown x 1 0 = (m, w)"
    using x1 s by (subst scaleDown.simps) simp
  from scaleDown_inv[OF _ s] have i: "m * w = x" "0 < w" "w \<le> 1 / 2" by simp_all
  have r: "roundPos x = of_int (rne (m * 2 ^ 52)) * w / 2 ^ 52"
    using False s0 by (simp add: roundPos_def)
  have "of_int (rne (m * 2 ^ 52)) * w \<le> (m * 2 ^ 52 + 1 / 2) * w"
    using rne_le[of "m * 2 ^ 52"] i(2) by (intro mult_right_mono) simp_all
  then have "roundPos x \<le> (m * 2 ^ 52 + 1 / 2) * w / 2 ^ 52"
    unfolding r by (simp add: divide_right_mono)
  also have "\<dots> = x + w / 2 ^ 53"
    using i(1) by (simp add: field_simps)
  finally have b: "roundPos x \<le> x + w / 2 ^ 53" .
  show ?thesis
  proof (cases "1 \<le> m")
    case True
    have "w \<le> x" using i True by (metis mult_le_cancel_right1 not_less order_less_imp_le mult.commute)
    then have "x + w / 2 ^ 53 \<le> x * (1 + 1 / 2 ^ 53)"
      by (simp add: field_simps)
    with b show ?thesis by simp
  next
    case False
    then have "m * w < 1 * w" using i(2) by (intro mult_strict_right_mono) simp_all
    then have "x < w" using i(1) by simp
    with i(3) have "x + w / 2 ^ 53 < 1" by simp
    with b show ?thesis by simp
  qed
qed

lemma double_below_one:
  assumes "isDouble u" "0 \<le> u" "u < 1"
  shows "u \<le> 1 - 1 / 2 ^ 53"
proof (cases "u < 1 / 2")
  case True
  then show ?thesis by simp
next
  case False
  then have h: "1 / 2 \<le> u" by simp
  have "scaleDown u 1 0 = scaleDown (2 * u) (1 / 2) (- 1)"
    using assms(3) by (subst scaleDown.simps) simp
  also have "\<dots> = (2 * u, 1 / 2)"
    using h by (subst scaleDown.simps) simp
  finally have "roundPos u = of_int (rne (2 * u * 2 ^ 52)) * (1 / 2) / 2 ^ 52"
    using assms(3) by (simp add: roundPos_def)
  moreover have "roundDouble u = roundPos u" using h by (simp add: roundDouble_def)
  ultimately have "u = of_int (rne (2 * u * 2 ^ 52)) / 2 ^ 53"
    using assms(1) by (simp add: isDouble_def)
  then obtain r :: int where r: "u = of_int r / 2 ^ 53" by blast
  with assms(3) have "(of_int r :: rat) < 2 ^ 53" by (simp add: field_simps)
  then have "(of_int r :: rat) < of_int (2 ^ 53)" by simp
  then have "r < 2 ^ 53" by (simp only: of_int_less_iff)
  then have "r \<le> 2 ^ 53 - 1" by simp
  then have "(of_int r :: rat) \<le> of_int (2 ^ 53 - 1)" by (simp only: of_int_le_iff)
  then have "(of_int r :: rat) \<le> 2 ^ 53 - 1" by simp
  then show ?thesis unfolding r by (simp add: field_simps)
qed

lemma product_below:
  assumes "isDouble u" "0 \<le> u" "u < 1" "1 \<le> n"
  shows "roundDouble (u * of_nat n) < of_nat n"
proof -
  define x where "x = u * of_nat n"
  have u: "u \<le> 1 - 1 / 2 ^ 53" by (rule double_below_one[OF assms(1-3)])
  have n: "(1::rat) \<le> of_nat n" using assms(4) by simp
  have x0: "0 \<le> x" using assms(2) by (simp add: x_def)
  have "roundDouble x < of_nat n"
  proof (cases "x = 0")
    case True
    then show ?thesis using n by (simp add: roundDouble_def)
  next
    case False
    with x0 have xp: "0 < x" by simp
    then have rd: "roundDouble x = roundPos x" by (simp add: roundDouble_def)
    have xn: "x \<le> (1 - 1 / 2 ^ 53) * of_nat n"
      unfolding x_def using u n by (intro mult_right_mono) simp_all
    have "x * (1 + 1 / 2 ^ 53) \<le> (1 - 1 / 2 ^ 53) * of_nat n * (1 + 1 / 2 ^ 53)"
      using xn by (intro mult_right_mono) simp_all
    also have "\<dots> = of_nat n * (1 - 1 / 2 ^ 106)"
      by (simp add: field_simps)
    also have "\<dots> < of_nat n" using n by (simp add: field_simps)
    finally have "x * (1 + 1 / 2 ^ 53) < of_nat n" .
    with roundPos_bound[OF xp] n have "roundPos x < of_nat n" by auto
    then show ?thesis unfolding rd .
  qed
  then show ?thesis unfolding x_def .
qed

lemma draw_in_range:
  assumes "isDouble u" "0 \<le> u" "u < 1"
  shows "nat \<lfloor>roundDouble (u * of_nat (Suc i + 1))\<rfloor> \<le> Suc i"
proof -
  have "roundDouble (u * of_nat (Suc i + 1)) < of_nat (Suc i + 1)"
    by (rule product_below[OF assms]) simp
  then have "\<lfloor>roundDouble (u * of_nat (Suc i + 1))\<rfloor> < int (Suc i + 1)"
    by (simp add: floor_less_iff del: of_nat_Suc of_nat_add)
  then show ?thesis by linarith
qed

lemma length_shuffleFrom: "length (shuffleFrom i rnd arr) = length arr"
  by (induction i arbitrary: arr) (simp_all add: Let_def)

lemma length_shuffleArray: "length (shuffleArray rnd arr) = length arr"
  by (simp add: shuffleArray_def length_shuffleFrom)

lemma mset_shuffleFrom:
  assumes "\<forall>k. isDouble (rnd k) \<and> 0 \<le> rnd k \<and> rnd k < 1"
  shows "i < length arr \<Longrightarrow> mset (shuffleFrom i rnd arr) = mset arr"
proof (induction i arbitrary: arr)
  case 0
  show ?case by simp
next
  case (Suc i)
  define j where "j = nat \<lfloor>roundDouble (rnd (Suc i) * of_nat (Suc i + 1))\<rfloor>"
  have "j \<le> Suc i" unfolding j_def using assms draw_in_range by blast
  with Suc.prems have jl: "j < length arr" by simp
  have sw: "mset (arr[Suc i := arr ! j, j := arr ! Suc i]) = mset arr"
    using mset_swap[OF jl Suc.prems] .
  have "mset (shuffleFrom i rnd (arr[Suc i := arr ! j, j := arr ! Suc i]))
        = mset (arr[Suc i := arr ! j, j := arr ! Suc i])"
    using Suc.prems by (intro Suc.IH) simp
  with sw show ?case by (simp add: j_def Let_def)
qed

lemma mset_shuffleArray:
  assumes "\<forall>k. isDouble (rnd k) \<and> 0 \<le> rnd k \<and> rnd k < 1"
  shows "mset (shuffleArray rnd arr) = mset arr"
proof (cases arr)
  case Nil
  then show ?thesis by (simp add: shuffleArray_def)
next
  case (Cons a as)
  then have "length arr - 1 < length arr" by simp
  from mset_shuffleFrom[OF assms this] show ?thesis by (simp add: shuffleArray_def)
qed

lemma difficultyPool_nonempty: "qs \<noteq> [] \<Longrightarrow> difficultyPool d qs \<noteq> []"
  by (simp add: difficultyPool_def Let_def)

text \<open>
  Claim C6. Whatever doubles in \<open>[0, 1)\<close> \<^verbatim>\<open>Math.random()\<close> returns, the array after
  \<^verbatim>\<open>shuffleArray\<close> holds the same elements, each as often as before.
\<close>

theorem shuffleArray_permutation:
  assumes "\<forall>k. isDouble (rnd k) \<and> 0 \<le> rnd k \<and> rnd k < 1"
  shows "mset (shuffleArray rnd arr) = mset arr"
  using assms by (rule mset_shuffleArray)

theorem shuffleArray_permutation_witness:
  "isDouble (6004799503160661 / 2 ^ 54)
   \<and> roundDouble (6004799503160661 / 2 ^ 54 * 3) = 1
   \<and> shuffleArray (\<lambda>k. 6004799503160661 / 2 ^ 54) [1::nat, 2, 3] = [3, 1, 2]
   \<and> mset [3::nat, 1, 2] = mset [1, 2, 3]"
proof -
  have d: "isDouble (6004799503160661 / 2 ^ 54)"
    by code_simp
  have p: "roundDouble (6004799503160661 / 2 ^ 54 * 3) = 1"
    by code_simp
  have r: "\<forall>k::nat. isDouble (6004799503160661 / 2 ^ 54)
             \<and> 0 \<le> (6004799503160661 / 2 ^ 54 :: rat) \<and> (6004799503160661 / 2 ^ 54 :: rat) < 1"
    using d by simp
  have e: "shuffleArray (\<lambda>k. 6004799503160661 / 2 ^ 54) [1::nat, 2, 3] = [3, 1, 2]"
    by code_simp
  from shuffleArray_permutation[OF r, of "[1::nat, 2, 3]"] d p e show ?thesis by simp
qed

text \<open>
  Claim C5. Before the shuffle, the pool for "easy" is the questions tagged easy or
  untagged, the pool for "hard" is the questions tagged hard, and in both cases the whole
  list when there are none; the pool of a list that is not empty is not empty, for any
  difficulty, and neither is \<^verbatim>\<open>backupQuestions\<close> after \<^verbatim>\<open>applyDifficultyFilter\<close>, which
  is the shuffled pool: the same questions as the pool, in some order.
\<close>

theorem difficulty_filter:
  "difficultyPool ''easy'' qs =
     (if filter (\<lambda>q. taggedEasy q \<or> untagged q) qs = [] then qs
      else filter (\<lambda>q. taggedEasy q \<or> untagged q) qs)
   \<and> difficultyPool ''hard'' qs = (if filter taggedHard qs = [] then qs else filter taggedHard qs)
   \<and> (qs \<noteq> [] \<longrightarrow> difficultyPool d qs \<noteq> [])
   \<and> backupQuestions (applyDifficultyFilter rnd s) =
       shuffleArray rnd (difficultyPool (chosenDifficulty s) (backupQuestions s))
   \<and> (backupQuestions s \<noteq> [] \<longrightarrow> backupQuestions (applyDifficultyFilter rnd s) \<noteq> [])
   \<and> ((\<forall>k. isDouble (rnd k) \<and> 0 \<le> rnd k \<and> rnd k < 1) \<longrightarrow>
        mset (backupQuestions (applyDifficultyFilter rnd s)) =
          mset (difficultyPool (chosenDifficulty s) (backupQuestions s)))"
proof -
  have e: "(\<lambda>q. \<not> truthy (difficulty q) \<or> difficulty q = Some (JStr ''easy''))
           = (\<lambda>q. taggedEasy q \<or> untagged q)"
    by (auto simp: taggedEasy_def untagged_def)
  have h: "(\<lambda>q. difficulty q = Some (JStr ''hard'')) = taggedHard"
    by (auto simp: taggedHard_def)
  have 1: "difficultyPool ''easy'' qs =
     (if filter (\<lambda>q. taggedEasy q \<or> untagged q) qs = [] then qs
      else filter (\<lambda>q. taggedEasy q \<or> untagged q) qs)"
    unfolding difficultyPool_def e by (simp add: Let_def)
  have 2: "difficultyPool ''hard'' qs =
     (if filter taggedHard qs = [] then qs else filter taggedHard qs)"
    unfolding difficultyPool_def h by (simp add: Let_def)
  have 3: "qs \<noteq> [] \<longrightarrow> difficultyPool d qs \<noteq> []"
    by (simp add: difficultyPool_nonempty)
  have 4: "backupQuestions (applyDifficultyFilter rnd s) =
       shuffleArray rnd (difficultyPool (chosenDifficulty s) (backupQuestions s))"
    by (simp add: applyDifficultyFilter_def)
  have "length (backupQuestions (applyDifficultyFilter rnd s))
        = length (difficultyPool (chosenDifficulty s) (backupQuestions s))"
    unfolding 4 by (rule length_shuffleArray)
  with difficultyPool_nonempty[of "backupQuestions s" "chosenDifficulty s"]
  have 5: "backupQuestions s \<noteq> [] \<longrightarrow> backupQuestions (applyDifficultyFilter rnd s) \<noteq> []"
    by (metis length_0_conv)
  have 6: "(\<forall>k. isDouble (rnd k) \<and> 0 \<le> rnd k \<and> rnd k < 1) \<longrightarrow>
        mset (backupQuestions (applyDifficultyFilter rnd s)) =
          mset (difficultyPool (chosenDifficulty s) (backupQuestions s))"
    unfolding 4 by (simp add: mset_shuffleArray)
  from 1 2 3 4 5 6 show ?thesis by blast
qed

theorem difficulty_filter_witness:
  "builtinQuestions \<noteq> []
   \<and> difficultyPool ''hard'' builtinQuestions \<noteq> []
   \<and> map answer (difficultyPool ''easy'' builtinQuestions) =
       [''Druk Green Power Corporation'', ''Tshechu'', ''Jigme Singye Wangchuck'']
   \<and> map answer (difficultyPool ''hard'' builtinQuestions) =
       [''High Value, Low Volume Tourism'', ''2008'']
   \<and> backupQuestions (initial []) \<noteq> []
   \<and> backupQuestions (applyDifficultyFilter (\<lambda>k. 0) (initial [])) \<noteq> []
   \<and> mset (backupQuestions (applyDifficultyFilter (\<lambda>k. 0) (initial []))) =
       mset (difficultyPool (chosenDifficulty (initial [])) (backupQuestions (initial [])))"
proof -
  note T = difficulty_filter[of builtinQuestions "''hard''" "\<lambda>k. 0" "initial []"]
  have n: "builtinQuestions \<noteq> []" "backupQuestions (initial []) \<noteq> []"
    by (simp_all add: builtinQuestions_def initial_def)
  have e: "filter (\<lambda>q. taggedEasy q \<or> untagged q) builtinQuestions = take 3 builtinQuestions"
    by (simp add: builtinQuestions_def taggedEasy_def untagged_def)
  have h: "filter taggedHard builtinQuestions = drop 3 builtinQuestions"
    by (simp add: builtinQuestions_def taggedHard_def)
  have t: "take 3 builtinQuestions \<noteq> []" "drop 3 builtinQuestions \<noteq> []"
    by (simp_all add: builtinQuestions_def)
  have 1: "difficultyPool ''easy'' builtinQuestions = take 3 builtinQuestions"
    using T t(1) unfolding e by simp
  have 2: "difficultyPool ''hard'' builtinQuestions = drop 3 builtinQuestions"
    using T t(2) unfolding h by simp
  have 3: "difficultyPool ''hard'' builtinQuestions \<noteq> []"
    using T n(1) by blast
  have 4: "backupQuestions (applyDifficultyFilter (\<lambda>k. 0) (initial [])) \<noteq> []"
    using T n(2) by blast
  have 5: "map answer (take 3 builtinQuestions) =
       [''Druk Green Power Corporation'', ''Tshechu'', ''Jigme Singye Wangchuck'']"
    by (simp add: builtinQuestions_def)
  have 6: "map answer (drop 3 builtinQuestions) = [''High Value, Low Volume Tourism'', ''2008'']"
    by (simp add: builtinQuestions_def)
  have r: "\<forall>k::nat. isDouble 0 \<and> 0 \<le> (0::rat) \<and> (0::rat) < 1"
    by (simp add: isDouble_def roundDouble_def)
  have 7: "mset (backupQuestions (applyDifficultyFilter (\<lambda>k. 0) (initial []))) =
       mset (difficultyPool (chosenDifficulty (initial [])) (backupQuestions (initial [])))"
    using T r by blast
  from n 3 4 5 6 7 show ?thesis unfolding 1 2 by blast
qed

section \<open>Timer\<close>

lemma clearTimer_eq:
  assumes "timerInv s"
  shows "clearTimer s = s\<lparr>intervals := [], questionTimerId := None\<rparr>"
proof (cases "questionTimerId s")
  case None
  with assms have "intervals s = []" by (simp add: timerInv_def)
  with None show ?thesis by (cases s) (simp add: clearTimer_def)
next
  case (Some t)
  with assms have "intervals s = [t]" "0 < t" by (auto simp: timerInv_def)
  with Some show ?thesis by (simp add: clearTimer_def)
qed

lemma endGame_eq:
  assumes "timerInv s"
  shows "endGame s = s\<lparr>intervals := [], questionTimerId := None, visibleSection := ''results''\<rparr>"
  by (simp add: endGame_def setSection_def clearTimer_eq[OF assms])

lemma renderQuestion_eq:
  assumes "timerInv s" "currentQuestion s < length (backupQuestions s)"
  shows "renderQuestion s =
     s\<lparr>intervals := [nextIntervalId s], questionTimerId := Some (nextIntervalId s),
       questionTimeLeft := secondsFor s, nextIntervalId := Suc (nextIntervalId s)\<rparr>"
  using assms(2)
  by (simp add: renderQuestion_def startTimer_def clearTimer_eq[OF assms(1)] secondsFor_def)

lemma timerInv_frame:
  assumes "timerInv s" "intervals s' = intervals s" "questionTimerId s' = questionTimerId s"
    "nextIntervalId s' = nextIntervalId s"
  shows "timerInv s'"
  using assms by (auto simp: timerInv_def)

lemma timerInv_clearTimer: "timerInv s \<Longrightarrow> timerInv (clearTimer s)"
  by (simp add: clearTimer_eq) (simp add: timerInv_def)

lemma timerInv_endGame: "timerInv s \<Longrightarrow> timerInv (endGame s)"
  by (simp add: endGame_eq) (simp add: timerInv_def)

lemma timerInv_renderQuestion:
  assumes "timerInv s"
  shows "timerInv (renderQuestion s)"
proof (cases "currentQuestion s < length (backupQuestions s)")
  case True
  show ?thesis using assms by (simp add: renderQuestion_eq[OF assms True]) (simp add: timerInv_def)
next
  case False
  then show ?thesis using timerInv_endGame[OF assms] by (simp add: renderQuestion_def)
qed

lemma timerInv_nextTurn:
  assumes "timerInv s"
  shows "timerInv (nextTurn s)"
proof -
  have a: "timerInv (s\<lparr>currentPlayer := currentPlayer s + 1\<rparr>)"
    by (rule timerInv_frame[OF assms]) simp_all
  have b: "timerInv (s\<lparr>currentPlayer := 0, currentQuestion := currentQuestion s + 1\<rparr>)"
    by (rule timerInv_frame[OF assms]) simp_all
  show ?thesis using a b
    by (simp add: nextTurn_def Let_def timerInv_endGame timerInv_renderQuestion)
qed

lemma timerInv_timerTick:
  assumes "timerInv s"
  shows "timerInv (timerTick s)"
proof -
  have a: "timerInv (s\<lparr>questionTimeLeft := questionTimeLeft s - 1\<rparr>)"
    by (rule timerInv_frame[OF assms]) simp_all
  show ?thesis using a
    by (simp add: timerTick_def Let_def timerInv_nextTurn timerInv_clearTimer)
qed

lemma timerInv_perform: "timerInv s \<Longrightarrow> timerInv (perform s c)"
  by (cases c)
    (simp_all add: timerInv_renderQuestion timerInv_nextTurn timerInv_endGame timerInv_timerTick)

lemma timerInv_performs: "timerInv s \<Longrightarrow> timerInv (foldl perform s cs)"
  by (induction cs arbitrary: s) (simp_all add: timerInv_perform)

lemma timerInv_atmost1: "timerInv s \<Longrightarrow> length (intervals s) \<le> 1"
  by (simp add: timerInv_def split: option.splits)

lemma timerInv_fresh: "timerInv s \<Longrightarrow> nextIntervalId s \<notin> set (intervals s)"
  by (auto simp: timerInv_def list_all_iff)

lemma timerInv_initial: "timerInv (initial rs)"
  by (simp add: timerInv_def initial_def)

text \<open>
  Claim C7. From a state in which the program's timer variable and the browser agree (as
  in the initial state), after any sequence of calls of \<^verbatim>\<open>renderQuestion\<close>, \<^verbatim>\<open>nextTurn\<close>
  and \<^verbatim>\<open>endGame\<close> and of callbacks of the running interval, at most one interval is
  running. Rendering a question leaves exactly the newly started interval running, which
  none of the earlier ones is, and ending the game leaves none.
\<close>

theorem single_timer:
  assumes "timerInv s"
  shows "length (intervals (foldl perform s cs)) \<le> 1
       \<and> (currentQuestion s < length (backupQuestions s) \<longrightarrow>
            intervals (renderQuestion s) = [nextIntervalId s]
            \<and> nextIntervalId s \<notin> set (intervals s)
            \<and> questionTimerId (renderQuestion s) = Some (nextIntervalId s))
       \<and> intervals (endGame s) = [] \<and> questionTimerId (endGame s) = None"
proof -
  have 1: "length (intervals (foldl perform s cs)) \<le> 1"
    using timerInv_atmost1[OF timerInv_performs[OF assms]] .
  have 2: "currentQuestion s < length (backupQuestions s) \<longrightarrow>
            intervals (renderQuestion s) = [nextIntervalId s]
            \<and> nextIntervalId s \<notin> set (intervals s)
            \<and> questionTimerId (renderQuestion s) = Some (nextIntervalId s)"
    using timerInv_fresh[OF assms] by (simp add: renderQuestion_eq[OF assms])
  have 3: "intervals (endGame s) = [] \<and> questionTimerId (endGame s) = None"
    by (simp add: endGame_eq[OF assms])
  from 1 2 3 show ?thesis by blast
qed

theorem single_timer_witness:
  "timerInv (initial [])
   \<and> length (intervals (foldl perform (initial [])
        [RenderQuestion, TimerCallback, NextTurn, RenderQuestion, EndGame])) \<le> 1
   \<and> intervals (renderQuestion (initial [])) = [1]
   \<and> intervals (endGame (initial [])) = []"
proof -
  have i: "timerInv (initial [])"
    by (simp add: timerInv_def initial_def)
  have q: "currentQuestion (initial []) < length (backupQuestions (initial []))"
    by (simp add: initial_def builtinQuestions_def)
  have n: "nextIntervalId (initial []) = 1"
    by (simp add: initial_def)
  note T = single_timer[OF i,
      of "[RenderQuestion, TimerCallback, NextTurn, RenderQuestion, EndGame]"]
  have a: "length (intervals (foldl perform (initial [])
        [RenderQuestion, TimerCallback, NextTurn, RenderQuestion, EndGame])) \<le> 1"
    using T by blast
  have b: "intervals (renderQuestion (initial [])) = [nextIntervalId (initial [])]"
    using T q by blast
  have c: "intervals (endGame (initial [])) = []"
    using T by blast
  from i a b[unfolded n] c show ?thesis by blast
qed

section \<open>Turn engine\<close>

lemmas flow_defs = nextTurn_def Let_def endGame_def renderQuestion_def setSection_def
  startTimer_def clearTimer_def

lemma nextTurn_answersLog_update:
  "nextTurn (s\<lparr>answersLog := l\<rparr>) = (nextTurn s)\<lparr>answersLog := l\<rparr>"
  by (simp add: flow_defs split: option.split)

lemma nextTurn_scores_update:
  "nextTurn (s\<lparr>scores := l\<rparr>) = (nextTurn s)\<lparr>scores := l\<rparr>"
  by (simp add: flow_defs split: option.split)

lemma nextTurn_clearTimer: "nextTurn (clearTimer s) = nextTurn s"
  by (simp add: flow_defs split: option.split)

lemma nextTurn_timeLeft_update:
  "nextTurn (s\<lparr>questionTimeLeft := t\<rparr>) =
     (nextTurn s)\<lparr>questionTimeLeft := questionTimeLeft (nextTurn (s\<lparr>questionTimeLeft := t\<rparr>))\<rparr>"
  by (simp add: flow_defs split: option.split)

lemma nextTurn_scores: "scores (nextTurn s) = scores s"
  by (simp add: flow_defs split: option.split)


lemma nextTurn_playerNames: "playerNames (nextTurn s) = playerNames s"
  by (simp add: flow_defs split: option.split)

lemma nextTurn_backupQuestions: "backupQuestions (nextTurn s) = backupQuestions s"
  by (simp add: flow_defs split: option.split)

lemma nextTurn_eq:
  assumes "timerInv s" "currentQuestion s < length (backupQuestions s)"
  shows "nextTurn s =
     (if Suc (currentPlayer s) < length (playerNames s) then
        s\<lparr>currentPlayer := Suc (currentPlayer s),
          intervals := [nextIntervalId s], questionTimerId := Some (nextIntervalId s),
          questionTimeLeft := secondsFor s, nextIntervalId := Suc (nextIntervalId s)\<rparr>
      else if Suc (currentQuestion s) < length (backupQuestions s) then
        s\<lparr>currentPlayer := 0, currentQuestion := Suc (currentQuestion s),
          intervals := [nextIntervalId s], questionTimerId := Some (nextIntervalId s),
          questionTimeLeft := secondsFor s, nextIntervalId := Suc (nextIntervalId s)\<rparr>
      else
        s\<lparr>currentPlayer := 0, currentQuestion := Suc (currentQuestion s),
          intervals := [], questionTimerId := None, visibleSection := ''results''\<rparr>)"
proof -
  have a: "timerInv (s\<lparr>currentPlayer := Suc (currentPlayer s)\<rparr>)"
    by (rule timerInv_frame[OF assms(1)]) simp_all
  have b: "timerInv (s\<lparr>currentPlayer := 0, currentQuestion := Suc (currentQuestion s)\<rparr>)"
    by (rule timerInv_frame[OF assms(1)]) simp_all
  show ?thesis
  proof (cases "Suc (currentPlayer s) < length (playerNames s)")
    case True
    then have "nextTurn s = renderQuestion (s\<lparr>currentPlayer := Suc (currentPlayer s)\<rparr>)"
      using assms(2) by (simp add: nextTurn_def Let_def)
    also have "\<dots> = s\<lparr>currentPlayer := Suc (currentPlayer s),
          intervals := [nextIntervalId s], questionTimerId := Some (nextIntervalId s),
          questionTimeLeft := secondsFor s, nextIntervalId := Suc (nextIntervalId s)\<rparr>"
      using assms(2) by (subst renderQuestion_eq[OF a]) (simp_all add: secondsFor_def)
    finally show ?thesis using True by simp
  next
    case False
    show ?thesis
    proof (cases "Suc (currentQuestion s) < length (backupQuestions s)")
      case True
      from False True
      have "nextTurn s = renderQuestion (s\<lparr>currentPlayer := 0, currentQuestion := Suc (currentQuestion s)\<rparr>)"
        by (simp add: nextTurn_def Let_def)
      also have "\<dots> = s\<lparr>currentPlayer := 0, currentQuestion := Suc (currentQuestion s),
          intervals := [nextIntervalId s], questionTimerId := Some (nextIntervalId s),
          questionTimeLeft := secondsFor s, nextIntervalId := Suc (nextIntervalId s)\<rparr>"
        using True by (subst renderQuestion_eq[OF b]) (simp_all add: secondsFor_def)
      finally show ?thesis using False True by simp
    next
      case F2: False
      from False F2
      have "nextTurn s = endGame (s\<lparr>currentPlayer := 0, currentQuestion := Suc (currentQuestion s)\<rparr>)"
        by (simp add: nextTurn_def Let_def)
      also have "\<dots> = s\<lparr>currentPlayer := 0, currentQuestion := Suc (currentQuestion s),
          intervals := [], questionTimerId := None, visibleSection := ''results''\<rparr>"
        by (subst endGame_eq[OF b]) simp
      finally show ?thesis using False F2 by simp
    qed
  qed
qed

lemma nextTurn_gamePhase:
  assumes "timerInv s" "visibleSection s = ''quiz''"
    "currentPlayer s < length (playerNames s)" "currentQuestion s < length (backupQuestions s)"
  shows "gamePhase (nextTurn s)" "turnsTaken (nextTurn s) = Suc (turnsTaken s)"
proof -
  note e = nextTurn_eq[OF assms(1,4)]
  have n: "playerNames s \<noteq> []" using assms(3) by auto
  show "gamePhase (nextTurn s)"
    using assms n unfolding e by (auto simp: gamePhase_def)
  show "turnsTaken (nextTurn s) = Suc (turnsTaken s)"
    using assms n unfolding e by (auto simp: turnsTaken_def)
qed


lemma onAnswer_fields:
  assumes "currentQuestion s < length (backupQuestions s)"
  shows "\<exists>w. onAnswer a s = Inr w
     \<and> playerNames w = playerNames (nextTurn s)
     \<and> backupQuestions w = backupQuestions (nextTurn s)
     \<and> currentPlayer w = currentPlayer (nextTurn s)
     \<and> currentQuestion w = currentQuestion (nextTurn s)
     \<and> visibleSection w = visibleSection (nextTurn s)
     \<and> questionTimerId w = questionTimerId (nextTurn s)
     \<and> intervals w = intervals (nextTurn s)
     \<and> nextIntervalId w = nextIntervalId (nextTurn s)
     \<and> (scores w = scores s \<or> scores w = incrementAt (currentPlayer s) (scores s))"
  using assms
  by (simp add: onAnswer_def Let_def nextTurn_answersLog_update nextTurn_scores_update
      nextTurn_scores)

lemma length_incrementAt: "i < length xs \<Longrightarrow> length (incrementAt i xs) = length xs"
  by (simp add: incrementAt_def)

lemma gamePhase_frame:
  assumes "gamePhase s" "playerNames s' = playerNames s" "backupQuestions s' = backupQuestions s"
    "currentPlayer s' = currentPlayer s" "currentQuestion s' = currentQuestion s"
    "visibleSection s' = visibleSection s" "questionTimerId s' = questionTimerId s"
  shows "gamePhase s'"
  using assms by (simp add: gamePhase_def)

lemma gamePhase_results_idle:
  assumes "timerInv s" "gamePhase s" "visibleSection s = ''results''"
  shows "intervals s = []"
  using assms by (auto simp: gamePhase_def timerInv_def)

lemma gamePhase_quiz_running:
  assumes "timerInv s" "gamePhase s" "visibleSection s = ''quiz''"
  shows "intervals s \<noteq> []" "currentPlayer s < length (playerNames s)"
    "currentQuestion s < length (backupQuestions s)"
  using assms by (auto simp: gamePhase_def timerInv_def)

lemma gamePhase_sections:
  "gamePhase s \<Longrightarrow> visibleSection s = ''quiz'' \<or> visibleSection s = ''results''"
  by (auto simp: gamePhase_def)

lemma fire_game:
  assumes t: "timerInv s" and g: "gamePhase s" and d: "duringGame e"
  shows "timerInv (fire s e) \<and> gamePhase (fire s e)
       \<and> playerNames (fire s e) = playerNames s
       \<and> backupQuestions (fire s e) = backupQuestions s
       \<and> turnsTaken (fire s e) = turnsTaken s + (if turnAdvancing s e then 1 else 0)
       \<and> (length (scores s) = length (playerNames s)
            \<longrightarrow> length (scores (fire s e)) = length (playerNames s))"
proof (cases "visibleSection s = ''quiz''")
  case False
  with gamePhase_sections[OF g] have r: "visibleSection s = ''results''" by simp
  have i: "intervals s = []" by (rule gamePhase_results_idle[OF t g r])
  from d have "fire s e = s \<and> \<not> turnAdvancing s e"
    using r i by (cases e) (simp_all add: fire_def)
  with t g show ?thesis by simp
next
  case True
  note q = gamePhase_quiz_running[OF t g True]
  note nt = nextTurn_gamePhase[OF t True q(2,3)]
  have tn: "timerInv (nextTurn s)" by (rule timerInv_nextTurn[OF t])
  show ?thesis
  proof (cases e)
    case (Answer a)
    obtain w where o: "onAnswer a s = Inr w"
      and w: "playerNames w = playerNames (nextTurn s)"
        "backupQuestions w = backupQuestions (nextTurn s)"
        "currentPlayer w = currentPlayer (nextTurn s)"
        "currentQuestion w = currentQuestion (nextTurn s)"
        "visibleSection w = visibleSection (nextTurn s)"
        "questionTimerId w = questionTimerId (nextTurn s)"
        "intervals w = intervals (nextTurn s)"
        "nextIntervalId w = nextIntervalId (nextTurn s)"
      and sc: "scores w = scores s \<or> scores w = incrementAt (currentPlayer s) (scores s)"
      using onAnswer_fields[OF q(3), of a] by blast
    have f: "fire s e = w"
      using True o by (simp add: Answer fire_def)
    have 1: "timerInv (fire s e)"
      unfolding f by (rule timerInv_frame[OF tn]) (simp_all add: w)
    have 2: "gamePhase (fire s e)"
      unfolding f by (rule gamePhase_frame[OF nt(1)]) (simp_all add: w)
    have 3: "playerNames (fire s e) = playerNames s" "backupQuestions (fire s e) = backupQuestions s"
      unfolding f by (simp_all add: w nextTurn_playerNames nextTurn_backupQuestions)
    have "turnsTaken (fire s e) = turnsTaken (nextTurn s)"
      unfolding f by (simp add: turnsTaken_def w)
    then have 4: "turnsTaken (fire s e) = turnsTaken s + (if turnAdvancing s e then 1 else 0)"
      using nt(2) True q(3) by (simp add: Answer)
    have 5: "length (scores s) = length (playerNames s)
            \<longrightarrow> length (scores (fire s e)) = length (playerNames s)"
      unfolding f using q(2) sc by (auto simp: length_incrementAt)
    from 1 2 3 4 5 show ?thesis by blast
  next
    case Tick
    show ?thesis
    proof (cases "questionTimeLeft s - 1 \<le> 0")
      case z: True
      have "fire s e = nextTurn (s\<lparr>questionTimeLeft := questionTimeLeft s - 1\<rparr>)"
        using q(1) z by (simp add: Tick fire_def timerTick_def Let_def nextTurn_clearTimer)
      then obtain x where f: "fire s e = (nextTurn s)\<lparr>questionTimeLeft := x\<rparr>"
        using nextTurn_timeLeft_update by metis
      have 1: "timerInv (fire s e)"
        unfolding f by (rule timerInv_frame[OF tn]) simp_all
      have 2: "gamePhase (fire s e)"
        unfolding f by (rule gamePhase_frame[OF nt(1)]) simp_all
      have 3: "playerNames (fire s e) = playerNames s" "backupQuestions (fire s e) = backupQuestions s"
        "scores (fire s e) = scores s"
        unfolding f by (simp_all add: nextTurn_playerNames nextTurn_backupQuestions nextTurn_scores)
      have "turnsTaken (fire s e) = turnsTaken (nextTurn s)"
        unfolding f by (simp add: turnsTaken_def)
      then have 4: "turnsTaken (fire s e) = turnsTaken s + (if turnAdvancing s e then 1 else 0)"
        using nt(2) q(1) z by (simp add: Tick)
      from 1 2 3 4 show ?thesis by simp
    next
      case z: False
      have f: "fire s e = s\<lparr>questionTimeLeft := questionTimeLeft s - 1\<rparr>"
        using q(1) z by (simp add: Tick fire_def timerTick_def Let_def)
      have 1: "timerInv (fire s e)"
        unfolding f by (rule timerInv_frame[OF t]) simp_all
      have 2: "gamePhase (fire s e)"
        unfolding f by (rule gamePhase_frame[OF g]) simp_all
      have 4: "turnsTaken (fire s e) = turnsTaken s + (if turnAdvancing s e then 1 else 0)"
        unfolding f using z by (simp add: Tick turnsTaken_def)
      from 1 2 4 show ?thesis unfolding f by simp
    qed
  qed (use d in simp_all)
qed

lemma run_game:
  assumes "timerInv s" "gamePhase s" "list_all duringGame es"
  shows "timerInv (run s es) \<and> gamePhase (run s es)
       \<and> playerNames (run s es) = playerNames s
       \<and> backupQuestions (run s es) = backupQuestions s
       \<and> turnsTaken (run s es) = turnsTaken s + advances s es"
  using assms
proof (induction es arbitrary: s)
  case Nil
  then show ?case by (simp add: run_def)
next
  case (Cons e es)
  from Cons.prems have d: "duringGame e" "list_all duringGame es" by simp_all
  note f = fire_game[OF Cons.prems(1,2) d(1)]
  from f have t: "timerInv (fire s e)" and g: "gamePhase (fire s e)" by blast+
  note ih = Cons.IH[OF t g d(2)]
  have r: "run s (e # es) = run (fire s e) es" by (simp add: run_def)
  from f ih show ?case unfolding r by simp
qed

lemma gamePhase_turns:
  assumes "gamePhase s"
  shows "turnsTaken s \<le> length (playerNames s) * length (backupQuestions s)"
    "visibleSection s = ''results'' \<longleftrightarrow>
       turnsTaken s = length (playerNames s) * length (backupQuestions s)"
    "visibleSection s = ''quiz'' \<longleftrightarrow>
       turnsTaken s < length (playerNames s) * length (backupQuestions s)"
proof -
  define N where "N = length (playerNames s)"
  define M where "M = length (backupQuestions s)"
  define p where "p = currentPlayer s"
  define q where "q = currentQuestion s"
  have quiz: "q * N + p < N * M" if "p < N" "q < M"
  proof -
    have "q * N + p < q * N + N" using that by simp
    also have "\<dots> = Suc q * N" by simp
    also have "\<dots> \<le> M * N" using that by (intro mult_le_mono1) simp
    finally show ?thesis by (simp add: mult.commute)
  qed
  from assms consider
      (a) "visibleSection s = ''quiz''" "p < N" "q < M"
    | (b) "visibleSection s = ''results''" "p = 0" "q = M"
    by (auto simp: gamePhase_def N_def M_def p_def q_def)
  then have "turnsTaken s \<le> N * M \<and> (visibleSection s = ''results'' \<longleftrightarrow> turnsTaken s = N * M)
     \<and> (visibleSection s = ''quiz'' \<longleftrightarrow> turnsTaken s < N * M)"
  proof cases
    case a
    from quiz[OF a(2,3)] a(1) show ?thesis
      by (simp add: turnsTaken_def N_def[symmetric] p_def[symmetric] q_def[symmetric])
  next
    case b
    then show ?thesis
      by (simp add: turnsTaken_def N_def[symmetric] p_def[symmetric] q_def[symmetric] mult.commute)
  qed
  then show "turnsTaken s \<le> length (playerNames s) * length (backupQuestions s)"
    "visibleSection s = ''results'' \<longleftrightarrow>
       turnsTaken s = length (playerNames s) * length (backupQuestions s)"
    "visibleSection s = ''quiz'' \<longleftrightarrow>
       turnsTaken s < length (playerNames s) * length (backupQuestions s)"
    unfolding N_def M_def by blast+
qed

lemma startGame_eq:
  assumes "timerInv s" "backupQuestions (handle s (StartGame rnd)) \<noteq> []"
  shows "handle s (StartGame rnd) =
     s\<lparr>backupQuestions := shuffleArray rnd (difficultyPool (chosenDifficulty s) (backupQuestions s)),
       currentQuestion := 0, currentPlayer := 0,
       scores := replicate (length (playerNames s)) (Num 0),
       visibleSection := ''quiz'',
       intervals := [nextIntervalId s], questionTimerId := Some (nextIntervalId s),
       questionTimeLeft := secondsFor s, nextIntervalId := Suc (nextIntervalId s)\<rparr>"
proof -
  define x where "x = setSection ''quiz'' (applyDifficultyFilter rnd s)"
  have h: "handle s (StartGame rnd) = renderQuestion x"
    by (simp add: x_def showQuiz_def)
  have b: "backupQuestions (renderQuestion x) = backupQuestions x"
    by (simp add: flow_defs split: option.split)
  have t: "timerInv x"
    by (rule timerInv_frame[OF assms(1)]) (simp_all add: x_def setSection_def applyDifficultyFilter_def)
  have q: "currentQuestion x < length (backupQuestions x)"
    using assms(2) unfolding h b by (simp add: x_def setSection_def applyDifficultyFilter_def)
  show ?thesis unfolding h renderQuestion_eq[OF t q]
    by (simp add: x_def setSection_def applyDifficultyFilter_def secondsFor_def)
qed

lemma startGame_gamePhase:
  assumes "timerInv s" "playerNames s \<noteq> []" "backupQuestions (handle s (StartGame rnd)) \<noteq> []"
  shows "timerInv (handle s (StartGame rnd))" "gamePhase (handle s (StartGame rnd))"
    "turnsTaken (handle s (StartGame rnd)) = 0"
    "playerNames (handle s (StartGame rnd)) = playerNames s"
    "length (scores (handle s (StartGame rnd))) = length (playerNames s)"
proof -
  note e = startGame_eq[OF assms(1,3)]
  have b: "backupQuestions (handle s (StartGame rnd)) =
      shuffleArray rnd (difficultyPool (chosenDifficulty s) (backupQuestions s))"
    by (subst e) simp
  show "timerInv (handle s (StartGame rnd))"
    using assms(1) by (subst e) (simp add: timerInv_def)
  show "gamePhase (handle s (StartGame rnd))"
    using assms(2,3) unfolding b by (subst e) (simp add: gamePhase_def)
  show "turnsTaken (handle s (StartGame rnd)) = 0"
    by (subst e) (simp add: turnsTaken_def)
  show "playerNames (handle s (StartGame rnd)) = playerNames s"
    by (subst e) simp
  show "length (scores (handle s (StartGame rnd))) = length (playerNames s)"
    by (subst e) simp
qed


text \<open>
  Claim C3. A game is started with at least one player and a pool of at least one question,
  and then answers are given and the timer ticks, in any order. Never more than N times M
  of these events advance the turn; while fewer have done so the quiz is shown, and the
  results are shown exactly when N times M have.
\<close>

theorem game_has_N_times_M_turns:
  assumes "timerInv s" "playerNames s \<noteq> []"
    and "backupQuestions (handle s (StartGame rnd)) \<noteq> []"
    and "list_all duringGame es"
  shows "advances (handle s (StartGame rnd)) es
           \<le> length (playerNames s) * length (backupQuestions (handle s (StartGame rnd)))
       \<and> (visibleSection (run (handle s (StartGame rnd)) es) = ''results'' \<longleftrightarrow>
            advances (handle s (StartGame rnd)) es
              = length (playerNames s) * length (backupQuestions (handle s (StartGame rnd))))
       \<and> (visibleSection (run (handle s (StartGame rnd)) es) = ''quiz'' \<longleftrightarrow>
            advances (handle s (StartGame rnd)) es
              < length (playerNames s) * length (backupQuestions (handle s (StartGame rnd))))"
proof -
  define g where "g = handle s (StartGame rnd)"
  note st = startGame_gamePhase[OF assms(1,2,3), folded g_def]
  note r = run_game[OF st(1,2) assms(4)]
  from r have gp: "gamePhase (run g es)" by blast
  from r st(3) have tt: "turnsTaken (run g es) = advances g es" by simp
  from r st(4) have pn: "playerNames (run g es) = playerNames s"
    and bq: "backupQuestions (run g es) = backupQuestions g" by simp_all
  from gamePhase_turns[OF gp, unfolded tt pn bq] show ?thesis
    unfolding g_def by simp
qed

theorem game_has_N_times_M_turns_witness:
  "advances (handle twoPlayersReady (StartGame (\<lambda>k. 0)))
      [Answer (JStr ''Tshechu''), Tick, Answer (JStr ''Losar''), Answer (JStr ''x''),
       Answer (JStr ''y''), Answer (JStr ''Hydro Bhutan''), Answer (JStr ''z'')] = 2 * 3
   \<and> visibleSection (run (handle twoPlayersReady (StartGame (\<lambda>k. 0)))
      [Answer (JStr ''Tshechu''), Tick, Answer (JStr ''Losar''), Answer (JStr ''x''),
       Answer (JStr ''y''), Answer (JStr ''Hydro Bhutan''), Answer (JStr ''z'')]) = ''results''"
proof -
  define es where "es = [Answer (JStr ''Tshechu''), Tick, Answer (JStr ''Losar''),
       Answer (JStr ''x''), Answer (JStr ''y''), Answer (JStr ''Hydro Bhutan''),
       Answer (JStr ''z'')]"
  have t: "timerInv twoPlayersReady"
    unfolding twoPlayersReady_def by code_simp
  have n: "playerNames twoPlayersReady \<noteq> []"
    unfolding twoPlayersReady_def by code_simp
  have b: "backupQuestions (handle twoPlayersReady (StartGame (\<lambda>k. 0))) \<noteq> []"
    unfolding twoPlayersReady_def by code_simp
  have d: "list_all duringGame es"
    unfolding es_def by simp
  have l: "length (playerNames twoPlayersReady) *
      length (backupQuestions (handle twoPlayersReady (StartGame (\<lambda>k. 0)))) = 2 * 3"
    unfolding twoPlayersReady_def by code_simp
  have a: "advances (handle twoPlayersReady (StartGame (\<lambda>k. 0))) es = 2 * 3"
    unfolding twoPlayersReady_def es_def by code_simp
  from game_has_N_times_M_turns[OF t n b d] a
  have "visibleSection (run (handle twoPlayersReady (StartGame (\<lambda>k. 0))) es) = ''results''"
    unfolding l by blast
  with a show ?thesis unfolding es_def by blast
qed





section \<open>Session invariants\<close>

lemma builtinQuestions_nonempty: "builtinQuestions \<noteq> []"
  by (simp add: builtinQuestions_def)

lemma sessionInv_initial: "sessionInv (initial rs)"
proof -
  have "backupQuestions (initial rs) \<noteq> []"
    using loadQuestions_nonempty[OF builtinQuestions_nonempty] by (simp add: initial_def)
  moreover have "setupPhase (initial rs)" "length (scores (initial rs)) = length (playerNames (initial rs))"
    by (simp_all add: setupPhase_def initial_def)
  ultimately show ?thesis using timerInv_initial by (simp add: sessionInv_def)
qed

lemma startGame_nonempty:
  "backupQuestions s \<noteq> [] \<Longrightarrow> backupQuestions (handle s (StartGame rnd)) \<noteq> []"
proof -
  assume a: "backupQuestions s \<noteq> []"
  have "backupQuestions (handle s (StartGame rnd))
        = shuffleArray rnd (difficultyPool (chosenDifficulty s) (backupQuestions s))"
    by (simp add: showQuiz_def applyDifficultyFilter_def flow_defs split: option.split)
  then have "length (backupQuestions (handle s (StartGame rnd)))
        = length (difficultyPool (chosenDifficulty s) (backupQuestions s))"
    by (simp add: length_shuffleArray)
  with difficultyPool_nonempty[OF a, of "chosenDifficulty s"] show ?thesis
    by (metis length_0_conv)
qed

lemma setupPhase_idle:
  assumes "timerInv s" "setupPhase s"
  shows "intervals s = []"
  using assms by (auto simp: setupPhase_def timerInv_def)

lemma sessionInv_setup_fire:
  assumes t: "timerInv s" and b: "backupQuestions s \<noteq> []"
    and l: "length (scores s) = length (playerNames s)" and p: "setupPhase s"
  shows "sessionInv (fire s e)"
proof (cases "enabled s e")
  case False
  with assms show ?thesis by (simp add: fire_def sessionInv_def)
next
  case en: True
  note i = setupPhase_idle[OF t p]
  show ?thesis
  proof (cases e)
    case (AddPlayer v)
    have "timerInv (fire s e)"
      by (rule timerInv_frame[OF t]) (simp_all add: AddPlayer fire_def addPlayerFromInput_def setMsg_def Let_def)
    moreover have "setupPhase (fire s e)"
      using p en by (simp add: AddPlayer fire_def addPlayerFromInput_def setMsg_def Let_def setupPhase_def)
    moreover have "length (scores (fire s e)) = length (playerNames (fire s e))"
      "backupQuestions (fire s e) = backupQuestions s"
      using l by (simp_all add: AddPlayer fire_def addPlayerFromInput_def setMsg_def Let_def)
    ultimately show ?thesis using b by (simp add: sessionInv_def)
  next
    case (RemovePlayer k)
    have "timerInv (fire s e)"
      by (rule timerInv_frame[OF t]) (simp_all add: RemovePlayer fire_def removePlayerAt_def setMsg_def Let_def)
    moreover have "setupPhase (fire s e)"
      using p en by (simp add: RemovePlayer fire_def removePlayerAt_def setMsg_def Let_def setupPhase_def)
    moreover have "length (scores (fire s e)) = length (playerNames (fire s e))"
      "backupQuestions (fire s e) = backupQuestions s"
      using l by (simp_all add: RemovePlayer fire_def removePlayerAt_def setMsg_def Let_def)
    ultimately show ?thesis using b by (simp add: sessionInv_def)
  next
    case ContinueToDifficulty
    have "timerInv (fire s e)"
      by (rule timerInv_frame[OF t])
        (simp_all add: ContinueToDifficulty fire_def continueToDifficulty_def setMsg_def setSection_def)
    moreover have "setupPhase (fire s e)"
      using p en
      by (auto simp: ContinueToDifficulty fire_def continueToDifficulty_def setMsg_def
          setSection_def setupPhase_def)
    moreover have "length (scores (fire s e)) = length (playerNames (fire s e))"
      "backupQuestions (fire s e) = backupQuestions s"
      using l by (simp_all add: ContinueToDifficulty fire_def continueToDifficulty_def setMsg_def setSection_def)
    ultimately show ?thesis using b by (simp add: sessionInv_def)
  next
    case BackToNames
    have "timerInv (fire s e)"
      by (rule timerInv_frame[OF t]) (simp_all add: BackToNames fire_def setSection_def)
    moreover have "setupPhase (fire s e)"
      using p en by (simp add: BackToNames fire_def setSection_def setupPhase_def)
    moreover have "length (scores (fire s e)) = length (playerNames (fire s e))"
      "backupQuestions (fire s e) = backupQuestions s"
      using l by (simp_all add: BackToNames fire_def setSection_def)
    ultimately show ?thesis using b by (simp add: sessionInv_def)
  next
    case (ChooseDifficulty d)
    have "timerInv (fire s e)"
      by (rule timerInv_frame[OF t]) (simp_all add: ChooseDifficulty fire_def)
    moreover have "setupPhase (fire s e)"
      using p en by (simp add: ChooseDifficulty fire_def setupPhase_def)
    moreover have "length (scores (fire s e)) = length (playerNames (fire s e))"
      "backupQuestions (fire s e) = backupQuestions s"
      using l by (simp_all add: ChooseDifficulty fire_def)
    ultimately show ?thesis using b by (simp add: sessionInv_def)
  next
    case (StartGame rnd)
    from en p have n: "playerNames s \<noteq> []"
      by (auto simp: StartGame setupPhase_def)
    have f: "fire s e = handle s (StartGame rnd)"
      using en by (simp add: StartGame fire_def)
    note ne = startGame_nonempty[OF b, of rnd]
    note g = startGame_gamePhase[OF t n ne]
    from g ne show ?thesis unfolding f sessionInv_def by simp
  next
    case (Answer a)
    with en p show ?thesis by (auto simp: setupPhase_def)
  next
    case Tick
    with en i show ?thesis by simp
  next
    case (PlayAgain rs)
    with en p show ?thesis by (auto simp: setupPhase_def)
  qed
qed

lemma sessionInv_game_fire:
  assumes t: "timerInv s" and b: "backupQuestions s \<noteq> []"
    and l: "length (scores s) = length (playerNames s)" and g: "gamePhase s"
  shows "sessionInv (fire s e)"
proof (cases "duringGame e")
  case True
  from fire_game[OF t g True] b l show ?thesis by (simp add: sessionInv_def)
next
  case False
  note sec = gamePhase_sections[OF g]
  show ?thesis
  proof (cases "enabled s e")
    case en: True
    with False sec obtain rs where "e = PlayAgain rs"
      by (cases e) auto
    with en show ?thesis by (simp add: fire_def sessionInv_initial)
  next
    case False
    with assms show ?thesis by (simp add: fire_def sessionInv_def)
  qed
qed

lemma sessionInv_fire: "sessionInv s \<Longrightarrow> sessionInv (fire s e)"
  using sessionInv_setup_fire sessionInv_game_fire unfolding sessionInv_def by blast

lemma sessionInv_run: "sessionInv s \<Longrightarrow> sessionInv (run s es)"
  unfolding run_def by (induction es arbitrary: s) (simp_all add: sessionInv_fire)


text \<open>
  Claim C1, as stated, fails in the initial state, which the claim includes: there is no
  player, so the current player index 0 is not below the number of players.
\<close>

theorem initial_state_no_current_player:
  "\<not> currentPlayer (run (initial []) []) < length (playerNames (run (initial []) []))"
  by (simp add: run_def initial_def)

text \<open>
  Claim C1, amended. In every state that a sequence of events leads to from the initial
  state, each event being raised by a control of the section shown or by the running
  timer: \<^verbatim>\<open>scores\<close> is as long as \<^verbatim>\<open>playerNames\<close>; the current player index is below
  the number of players when there is a player, and 0 when there is none; the current
  question index is at most the number of questions, and equal to it exactly when the
  results are shown.
\<close>

theorem session_invariants:
  "length (scores (run (initial rs) es)) = length (playerNames (run (initial rs) es))
   \<and> (playerNames (run (initial rs) es) \<noteq> [] \<longrightarrow>
        currentPlayer (run (initial rs) es) < length (playerNames (run (initial rs) es)))
   \<and> (playerNames (run (initial rs) es) = [] \<longrightarrow> currentPlayer (run (initial rs) es) = 0)
   \<and> currentQuestion (run (initial rs) es) \<le> length (backupQuestions (run (initial rs) es))
   \<and> (currentQuestion (run (initial rs) es) = length (backupQuestions (run (initial rs) es))
        \<longleftrightarrow> visibleSection (run (initial rs) es) = ''results'')"
proof -
  define s where "s = run (initial rs) es"
  have "sessionInv s" unfolding s_def by (rule sessionInv_run[OF sessionInv_initial])
  then have "length (scores s) = length (playerNames s)
   \<and> (playerNames s \<noteq> [] \<longrightarrow> currentPlayer s < length (playerNames s))
   \<and> (playerNames s = [] \<longrightarrow> currentPlayer s = 0)
   \<and> currentQuestion s \<le> length (backupQuestions s)
   \<and> (currentQuestion s = length (backupQuestions s) \<longleftrightarrow> visibleSection s = ''results'')"
    by (auto simp: sessionInv_def setupPhase_def gamePhase_def)
  then show ?thesis unfolding s_def .
qed

theorem session_invariants_witness:
  "playerNames (run (initial []) [AddPlayer ''Dorji'', AddPlayer ''Pema'', ContinueToDifficulty,
      StartGame (\<lambda>k. 0), Answer (JStr ''Tshechu'')]) \<noteq> []
   \<and> currentPlayer (run (initial []) [AddPlayer ''Dorji'', AddPlayer ''Pema'',
      ContinueToDifficulty, StartGame (\<lambda>k. 0), Answer (JStr ''Tshechu'')])
     < length (playerNames (run (initial []) [AddPlayer ''Dorji'', AddPlayer ''Pema'',
      ContinueToDifficulty, StartGame (\<lambda>k. 0), Answer (JStr ''Tshechu'')]))
   \<and> playerNames (run (initial []) []) = []
   \<and> currentPlayer (run (initial []) []) = 0"
proof -
  have n: "playerNames (run (initial []) [AddPlayer ''Dorji'', AddPlayer ''Pema'',
      ContinueToDifficulty, StartGame (\<lambda>k. 0), Answer (JStr ''Tshechu'')]) \<noteq> []"
    by code_simp
  have e: "playerNames (run (initial []) []) = []"
    by code_simp
  from session_invariants[of "[]" "[AddPlayer ''Dorji'', AddPlayer ''Pema'',
      ContinueToDifficulty, StartGame (\<lambda>k. 0), Answer (JStr ''Tshechu'')]"]
    session_invariants[of "[]" "[]"] n e
  show ?thesis by blast
qed


end
